theory Spec2Isabelle
  imports Main "HOL-Library.Multiset"
begin

section \<open>Data model of \<open>src/app/page.tsx\<close>\<close>

text \<open>
  The TypeScript type \<open>Bookmark\<close>. Optional fields (\<open>description?\<close>, \<open>tag?\<close>,
  \<open>favicon?\<close>) are options: \<open>None\<close> stands for \<open>undefined\<close> and for the \<open>null\<close> a
  database row may carry. The field \<open>id\<close> is written \<open>id_bm\<close>, since \<open>id\<close> is the
  identity function of HOL.
\<close>

record bookmark =
  id_bm :: string
  title :: string
  url :: string
  description :: "string option"
  tag :: "string option"
  favicon :: "string option"
  created_at :: string

text \<open>
  Built-ins of the JavaScript runtime that the page calls and that are not code of the
  repository. Their results depend on the Unicode tables, the collation of the locale and
  the date parser of the engine, so every definition below takes them as a parameter:
  \<^item> \<open>toLowerCase s\<close> is \<open>s.toLowerCase()\<close>;
  \<^item> \<open>trim s\<close> is \<open>s.trim()\<close>;
  \<^item> \<open>getTime s\<close> is \<open>new Date(s).getTime()\<close>, with \<open>None\<close> for \<open>NaN\<close> (an invalid date);
  \<^item> \<open>localeCompare a b\<close> is \<open>a.localeCompare(b)\<close>.
\<close>

record js_builtins =
  toLowerCase :: "string \<Rightarrow> string"
  trim :: "string \<Rightarrow> string"
  getTime :: "string \<Rightarrow> int option"
  localeCompare :: "string \<Rightarrow> string \<Rightarrow> int"

text \<open>The union type \<open>"newest" | "oldest" | "alpha"\<close> of \<open>sortBy\<close>.\<close>

datatype sort_key = newest | oldest | alpha

text \<open>
  The messages handed to \<open>toast\<close>, in the order they appear in the source:
  "Bookmark updated", "Failed to update -- try again", "Bookmark saved",
  "Failed to save -- try again", "Bookmark deleted", "Delete failed -- restoring...".
\<close>

datatype toast_text =
  Bookmark_updated | Failed_to_update | Bookmark_saved | Failed_to_save
  | Bookmark_deleted | Delete_failed_restoring

text \<open>The signed-in user; the page reads only \<open>user.id\<close>.\<close>

record auth_user =
  id_user :: string

text \<open>
  The \<open>useState\<close> and \<open>useRef\<close> cells of \<open>Home\<close> that the handlers read or write. The form
  cells \<open>title\<close>, \<open>url\<close>, \<open>description\<close> and \<open>tag\<close> carry the suffix \<open>_st\<close>, the names
  without it being the fields of \<open>bookmark\<close>. The cells \<open>search\<close>, \<open>activeTag\<close> and
  \<open>sortBy\<close> are read by the filter effect alone and are arguments of its model.
\<close>

record state =
  user :: "auth_user option"
  bookmarks :: "bookmark list"
  title_st :: string
  url_st :: string
  description_st :: string
  tag_st :: string
  panelOpen :: bool
  deleteTarget :: "string option"
  toastMsg :: "toast_text option"
  editId :: "string option"
  submitting :: bool
  userIdRef :: "string option"

text \<open>
  The calls made on the storage client. \<open>Select_req column ascending\<close> is
  \<open>from("bookmarks").select("*").order(column, {ascending})\<close>;
  \<open>Update_req title url description tag id\<close> is \<open>update({title, url, description, tag}).eq("id", id)\<close>;
  \<open>Insert_req title url description tag user_id\<close> is
  \<open>insert({title, url, description, tag, user_id})\<close>; \<open>Delete_req id\<close> is
  \<open>delete().eq("id", id)\<close>.
\<close>

datatype request =
    Select_req string bool
  | Update_req string string string string string
  | Insert_req string string string string string
  | Delete_req string

text \<open>The \<open>{data, error}\<close> object a call resolves to; \<open>None\<close> is \<open>null\<close>.\<close>

record response =
  data :: "bookmark list option"
  error :: "string option"

text \<open>
  How the synchronous part of a handler ends: it returns, it suspends at an \<open>await\<close> on a
  remote call, or it throws (reading \<open>user.id\<close> while \<open>user\<close> is \<open>null\<close>).
\<close>

datatype outcome = Returned | Awaiting request | Threw_TypeError

text \<open>A payload of the \<open>postgres_changes\<close> channel: \<open>eventType\<close> with \<open>new\<close>, or \<open>old.id\<close>.\<close>

datatype payload = INSERT bookmark | DELETE string | UPDATE bookmark

section \<open>JavaScript primitives used by the page\<close>

text \<open>Truthiness of a \<open>string | null\<close>: \<open>null\<close> and the empty string are falsy.\<close>

fun truthy :: "string option \<Rightarrow> bool" where
  "truthy None = False"
| "truthy (Some s) = (s \<noteq> [])"

text \<open>\<open>starts_with s q\<close>: \<open>q\<close> is an initial segment of \<open>s\<close>.\<close>

fun starts_with :: "string \<Rightarrow> string \<Rightarrow> bool" where
  "starts_with s [] = True"
| "starts_with [] (c # q) = False"
| "starts_with (d # s) (c # q) = (d = c \<and> starts_with s q)"

text \<open>
  \<open>s.includes(q)\<close>: \<open>q\<close> occurs in \<open>s\<close> as a contiguous run (\<open>includes\<close> is a keyword
  of Isabelle, hence the suffix).
\<close>

fun includes_js :: "string \<Rightarrow> string \<Rightarrow> bool" where
  "includes_js [] q = (q = [])"
| "includes_js (d # s) q = (starts_with (d # s) q \<or> includes_js s q)"

text \<open>
  \<open>Array.prototype.sort\<close> with a comparator. The comparator's number is read as the
  language does: \<open>NaN\<close> counts as \<open>0\<close>. The language requires the sort to be stable; for a
  comparator that is consistent on the elements, the stable arrangement is unique, and
  insertion from the right computes it.
\<close>

definition sort_compare :: "('a \<Rightarrow> 'a \<Rightarrow> int option) \<Rightarrow> 'a \<Rightarrow> 'a \<Rightarrow> int" where
  "sort_compare comparefn x y = (case comparefn x y of None \<Rightarrow> 0 | Some v \<Rightarrow> v)"

fun place :: "('a \<Rightarrow> 'a \<Rightarrow> int option) \<Rightarrow> 'a \<Rightarrow> 'a list \<Rightarrow> 'a list" where
  "place comparefn x [] = [x]"
| "place comparefn x (y # ys) =
     (if sort_compare comparefn x y \<le> 0 then x # y # ys else y # place comparefn x ys)"

fun sort_js :: "('a \<Rightarrow> 'a \<Rightarrow> int option) \<Rightarrow> 'a list \<Rightarrow> 'a list" where
  "sort_js comparefn [] = []"
| "sort_js comparefn (x # xs) = place comparefn x (sort_js comparefn xs)"

text \<open>Subtraction of two numbers, \<open>NaN\<close> when either is.\<close>

fun minus_js :: "int option \<Rightarrow> int option \<Rightarrow> int option" where
  "minus_js (Some a) (Some b) = Some (a - b)"
| "minus_js _ _ = None"

section \<open>The change-notification handler (lines 121--129)\<close>

fun realtime_handler :: "payload \<Rightarrow> bookmark list \<Rightarrow> bookmark list" where
  "realtime_handler (INSERT new) prev = new # prev"
| "realtime_handler (DELETE old_id) prev = filter (\<lambda>b. id_bm b \<noteq> old_id) prev"
| "realtime_handler (UPDATE new) prev = map (\<lambda>b. if id_bm b = id_bm new then new else b) prev"

definition on_payload :: "payload \<Rightarrow> state \<Rightarrow> state" where
  "on_payload p st = st\<lparr>bookmarks := realtime_handler p (bookmarks st)\<rparr>"

section \<open>The derived view (lines 135--149)\<close>

definition matches :: "js_builtins \<Rightarrow> string \<Rightarrow> bookmark \<Rightarrow> bool" where
  "matches env q b =
     (includes_js (toLowerCase env (title b)) q
      \<or> includes_js (toLowerCase env (url b)) q
      \<or> (case description b of None \<Rightarrow> False | Some d \<Rightarrow> includes_js (toLowerCase env d) q))"

definition by_created_at :: "js_builtins \<Rightarrow> bookmark \<Rightarrow> bookmark \<Rightarrow> int option" where
  "by_created_at env a b = minus_js (getTime env (created_at a)) (getTime env (created_at b))"

definition by_title :: "js_builtins \<Rightarrow> bookmark \<Rightarrow> bookmark \<Rightarrow> int option" where
  "by_title env a b = Some (localeCompare env (title a) (title b))"

text \<open>Lines 136--145: the copy of the mirror and the two \<open>filter\<close> calls.\<close>

definition filter_stage :: "js_builtins \<Rightarrow> bookmark list \<Rightarrow> string \<Rightarrow> string \<Rightarrow> bookmark list" where
  "filter_stage env bms search activeTag =
     (let result = bms;
          result = (if search \<noteq> [] then filter (matches env (toLowerCase env search)) result
                    else result)
      in if activeTag \<noteq> ''All'' then filter (\<lambda>b. tag b = Some activeTag) result else result)"

text \<open>Lines 146--148: the sort, and with it the value handed to \<open>setFiltered\<close>.\<close>

definition filtered :: "js_builtins \<Rightarrow> bookmark list \<Rightarrow> string \<Rightarrow> string \<Rightarrow> sort_key \<Rightarrow> bookmark list" where
  "filtered env bms search activeTag sortBy =
     (let result = filter_stage env bms search activeTag
      in if sortBy = oldest then sort_js (by_created_at env) result
         else if sortBy = alpha then sort_js (by_title env) result
         else result)"

section \<open>Fetching the mirror (lines 105--112)\<close>

text \<open>
  \<open>fetchBookmarks\<close> up to its \<open>await\<close>, and its continuation once the call has resolved.
\<close>

definition fetchBookmarks :: "state \<Rightarrow> state \<times> outcome" where
  "fetchBookmarks st =
     (if \<not> truthy (userIdRef st) then (st, Returned)
      else (st, Awaiting (Select_req ''created_at'' False)))"

definition fetchBookmarks_resumed :: "response \<Rightarrow> state \<Rightarrow> state" where
  "fetchBookmarks_resumed r st =
     (if error r = None then st\<lparr>bookmarks := (case data r of None \<Rightarrow> [] | Some d \<Rightarrow> d)\<rparr>
      else st)"

text \<open>
  The effect on \<open>user\<close> (lines 114--117): it stores \<open>user.id\<close> in the ref and calls
  \<open>fetchBookmarks\<close>. The subscription it also opens delivers the payloads of
  \<open>on_payload\<close>.
\<close>

definition user_effect :: "state \<Rightarrow> state \<times> outcome" where
  "user_effect st =
     (case user st of None \<Rightarrow> (st, Returned)
      | Some u \<Rightarrow> fetchBookmarks (st\<lparr>userIdRef := Some (id_user u)\<rparr>))"

section \<open>The mutation handlers (lines 155--186)\<close>

text \<open>
  \<open>toast\<close> sets the message; the timer that clears it three seconds later is left out, no
  handler reading the message.
\<close>

definition toast :: "toast_text \<Rightarrow> state \<Rightarrow> state" where
  "toast msg st = st\<lparr>toastMsg := Some msg\<rparr>"

definition resetForm :: "state \<Rightarrow> state" where
  "resetForm st = st\<lparr>title_st := [], url_st := [], description_st := [], tag_st := [], editId := None\<rparr>"

definition openEdit :: "bookmark \<Rightarrow> state \<Rightarrow> state" where
  "openEdit bm st =
     st\<lparr>title_st := title bm, url_st := url bm,
        description_st := (case description bm of None \<Rightarrow> [] | Some d \<Rightarrow> d),
        tag_st := (case tag bm of None \<Rightarrow> [] | Some t \<Rightarrow> t),
        editId := Some (id_bm bm), panelOpen := True\<rparr>"

text \<open>
  \<open>handleSubmit\<close> up to its \<open>await\<close>, and its continuation. The continuation runs in
  the branch of \<open>if (editId)\<close> that was taken before the \<open>await\<close>; its first argument
  says which.
\<close>

definition handleSubmit :: "js_builtins \<Rightarrow> state \<Rightarrow> state \<times> outcome" where
  "handleSubmit env st =
     (if trim env (title_st st) = [] \<or> trim env (url_st st) = [] then (st, Returned)
      else let st1 = st\<lparr>submitting := True\<rparr> in
        if truthy (editId st)
        then (st1, Awaiting (Update_req (title_st st) (url_st st) (description_st st) (tag_st st)
                               (case editId st of None \<Rightarrow> [] | Some i \<Rightarrow> i)))
        else (case user st of
                None \<Rightarrow> (st1, Threw_TypeError)
              | Some u \<Rightarrow> (st1, Awaiting (Insert_req (title_st st) (url_st st) (description_st st)
                                         (tag_st st) (id_user u)))))"

definition handleSubmit_resumed :: "bool \<Rightarrow> response \<Rightarrow> state \<Rightarrow> state" where
  "handleSubmit_resumed editing r st =
     (let st1 =
        (if editing
         then (if error r = None then (resetForm (toast Bookmark_updated st))\<lparr>panelOpen := False\<rparr>
               else toast Failed_to_update st)
         else (if error r = None then (resetForm (toast Bookmark_saved st))\<lparr>panelOpen := False\<rparr>
               else toast Failed_to_save st))
      in st1\<lparr>submitting := False\<rparr>)"

text \<open>
  The two elements of the form that call \<open>handleSubmit\<close>: the \<open>onKeyDown\<close> of the URL
  input (line 475) and the submit button (line 494), whose \<open>disabled\<close> attribute keeps a
  click from reaching \<open>onClick\<close>.
\<close>

definition url_onKeyDown :: "js_builtins \<Rightarrow> string \<Rightarrow> state \<Rightarrow> state \<times> outcome" where
  "url_onKeyDown env key st = (if key = ''Enter'' then handleSubmit env st else (st, Returned))"

definition submit_disabled :: "js_builtins \<Rightarrow> state \<Rightarrow> bool" where
  "submit_disabled env st =
     (trim env (title_st st) = [] \<or> trim env (url_st st) = [] \<or> submitting st)"

definition submit_onClick :: "js_builtins \<Rightarrow> state \<Rightarrow> state \<times> outcome" where
  "submit_onClick env st = (if submit_disabled env st then (st, Returned) else handleSubmit env st)"

text \<open>
  \<open>handleDelete\<close> up to its \<open>await\<close>, and its continuation, which ends in the call of
  \<open>fetchBookmarks\<close> when the delete call reported an error.
\<close>

definition handleDelete :: "string \<Rightarrow> state \<Rightarrow> state \<times> outcome" where
  "handleDelete i st =
     (toast Bookmark_deleted
        (st\<lparr>bookmarks := filter (\<lambda>b. id_bm b \<noteq> i) (bookmarks st), deleteTarget := None\<rparr>),
      Awaiting (Delete_req i))"

definition handleDelete_resumed :: "response \<Rightarrow> state \<Rightarrow> state \<times> outcome" where
  "handleDelete_resumed r st =
     (if error r \<noteq> None then fetchBookmarks (toast Delete_failed_restoring st)
      else (st, Returned))"

section \<open>Properties stated by the specification\<close>

text \<open>
  The specification's reading of the filter: a text contains the query case-insensitively
  when its case-folded form has the case-folded query as a contiguous part, and a record is
  retained when the query is empty or its title, URL or note contains it, and the active tag
  is the sentinel or the record's tag.
\<close>

definition contains_ci :: "js_builtins \<Rightarrow> string \<Rightarrow> string \<Rightarrow> bool" where
  "contains_ci env s q = (\<exists>pre suf. toLowerCase env s = pre @ toLowerCase env q @ suf)"

definition retained :: "js_builtins \<Rightarrow> string \<Rightarrow> string \<Rightarrow> bookmark \<Rightarrow> bool" where
  "retained env q t b =
     ((q = [] \<or> contains_ci env (title b) q \<or> contains_ci env (url b) q
       \<or> (\<exists>d. description b = Some d \<and> contains_ci env d q))
      \<and> (t = ''All'' \<or> tag b = Some t))"

text \<open>Non-decreasing order of two records by title and by creation time.\<close>

definition title_le :: "js_builtins \<Rightarrow> bookmark \<Rightarrow> bookmark \<Rightarrow> bool" where
  "title_le env a b = (localeCompare env (title a) (title b) \<le> 0)"

definition created_le :: "js_builtins \<Rightarrow> bookmark \<Rightarrow> bookmark \<Rightarrow> bool" where
  "created_le env a b =
     (case (getTime env (created_at a), getTime env (created_at b)) of
        (Some s, Some t) \<Rightarrow> s \<le> t
      | _ \<Rightarrow> False)"

text \<open>
  A comparator is usable for sorting the titles of the records \<open>bms\<close> when, on them, it
  orders any two titles one way or the other and does so transitively.
\<close>

definition collates :: "js_builtins \<Rightarrow> bookmark list \<Rightarrow> bool" where
  "collates env bms =
     ((\<forall>a\<in>set bms. \<forall>b\<in>set bms. title_le env a b \<or> title_le env b a)
      \<and> (\<forall>a\<in>set bms. \<forall>b\<in>set bms. \<forall>c\<in>set bms.
            title_le env a b \<and> title_le env b c \<longrightarrow> title_le env a c))"

section \<open>Concrete data for worked examples\<close>

text \<open>
  An instance of the built-ins on ASCII text: case folding of the letters A to Z, trimming
  of blanks, tabs and line breaks, comparison by character code (the collation order of
  the runtime on texts of letters of one case), and the epoch milliseconds of three
  timestamps.
\<close>

definition lower_char :: "char \<Rightarrow> char" where
  "lower_char c =
     (case map_of (zip ''ABCDEFGHIJKLMNOPQRSTUVWXYZ'' ''abcdefghijklmnopqrstuvwxyz'') c of
        None \<Rightarrow> c
      | Some d \<Rightarrow> d)"

definition blank :: "char \<Rightarrow> bool" where
  "blank c = (c \<in> set [CHR 0x09, CHR 0x0A, CHR 0x0B, CHR 0x0C, CHR 0x0D, CHR 0x20])"

fun code_compare :: "string \<Rightarrow> string \<Rightarrow> int" where
  "code_compare [] [] = 0"
| "code_compare [] (d # t) = - 1"
| "code_compare (c # s) [] = 1"
| "code_compare (c # s) (d # t) =
     (if (of_char c :: nat) < of_char d then - 1
      else if (of_char d :: nat) < of_char c then 1
      else code_compare s t)"

definition ascii_builtins :: js_builtins where
  "ascii_builtins =
     \<lparr>toLowerCase = map lower_char,
      trim = (\<lambda>s. rev (dropWhile blank (rev (dropWhile blank s)))),
      getTime = map_of [(''2024-01-01T00:00:00Z'', 1704067200000),
                        (''2024-01-02T00:00:00Z'', 1704153600000),
                        (''2024-01-03T00:00:00Z'', 1704240000000)],
      localeCompare = code_compare\<rparr>"

text \<open>The records of the specification's end-to-end scenarios.\<close>

definition bm1 :: bookmark where
  "bm1 = \<lparr>id_bm = ''1'', title = ''A'', url = ''https://a.example'', description = None,
          tag = Some ''Dev'', favicon = None, created_at = ''2024-01-01T00:00:00Z''\<rparr>"

definition bm2 :: bookmark where
  "bm2 = \<lparr>id_bm = ''2'', title = ''B'', url = ''https://b.example'', description = Some ''Palette'',
          tag = Some ''Design'', favicon = None, created_at = ''2024-01-02T00:00:00Z''\<rparr>"

definition bm3 :: bookmark where
  "bm3 = \<lparr>id_bm = ''3'', title = ''C'', url = ''https://c.example'', description = None,
          tag = None, favicon = None, created_at = ''2024-01-01T00:00:00Z''\<rparr>"

definition st0 :: state where
  "st0 = \<lparr>user = Some \<lparr>id_user = ''u1''\<rparr>, bookmarks = [bm2, bm1],
          title_st = '' A '', url_st = ''https://a.example '', description_st = [], tag_st = [],
          panelOpen = True, deleteTarget = None, toastMsg = None, editId = None,
          submitting = False, userIdRef = Some ''u1''\<rparr>"

section \<open>Helper lemmas\<close>

subsection \<open>Substring search and the filter\<close>

lemma starts_with_iff: "starts_with s q \<longleftrightarrow> (\<exists>suf. s = q @ suf)"
  by (induction s q rule: starts_with.induct) auto

lemma includes_js_iff: "includes_js s q \<longleftrightarrow> (\<exists>pre suf. s = pre @ q @ suf)"
proof (induction s)
  case Nil
  then show ?case by auto
next
  case (Cons d s)
  show ?case
  proof
    assume "includes_js (d # s) q"
    then consider "starts_with (d # s) q" | "includes_js s q" by auto
    then show "\<exists>pre suf. d # s = pre @ q @ suf"
    proof cases
      case 1
      then obtain suf where "d # s = q @ suf" by (auto simp: starts_with_iff)
      then have "d # s = [] @ q @ suf" by simp
      then show ?thesis by blast
    next
      case 2
      then obtain pre suf where "s = pre @ q @ suf" using Cons.IH by blast
      then have "d # s = (d # pre) @ q @ suf" by simp
      then show ?thesis by blast
    qed
  next
    assume "\<exists>pre suf. d # s = pre @ q @ suf"
    then obtain pre suf where e: "d # s = pre @ q @ suf" by blast
    show "includes_js (d # s) q"
    proof (cases pre)
      case Nil
      with e have "starts_with (d # s) q" by (auto simp: starts_with_iff)
      then show ?thesis by simp
    next
      case (Cons p pre')
      with e have "s = pre' @ q @ suf" by simp
      then have "includes_js s q" using Cons.IH by blast
      then show ?thesis by simp
    qed
  qed
qed

lemma matches_iff:
  "matches env (toLowerCase env q) b \<longleftrightarrow>
     contains_ci env (title b) q \<or> contains_ci env (url b) q
     \<or> (\<exists>d. description b = Some d \<and> contains_ci env d q)"
  by (auto simp: matches_def contains_ci_def includes_js_iff split: option.splits)

lemma filter_stage_retained:
  "filter_stage env bms q t = filter (retained env q t) bms"
proof -
  have a: "filter (\<lambda>b. tag b = Some t) (filter (matches env (toLowerCase env q)) bms)
           = filter (\<lambda>b. matches env (toLowerCase env q) b \<and> tag b = Some t) bms"
    by (simp add: conj_commute)
  show ?thesis
    unfolding filter_stage_def Let_def retained_def
    by (auto simp: a matches_iff intro!: filter_cong)
qed

lemma mset_place: "mset (place c x ys) = add_mset x (mset ys)"
  by (induction ys) auto

lemma mset_sort_js: "mset (sort_js c xs) = mset xs"
  by (induction xs) (auto simp: mset_place)

lemma set_place: "set (place c x ys) = insert x (set ys)"
  by (induction ys) auto

lemma set_sort_js: "set (sort_js c xs) = set xs"
  by (induction xs) (auto simp: set_place)

lemma sorted_place:
  assumes tot: "\<And>a b. a \<in> A \<Longrightarrow> b \<in> A \<Longrightarrow> \<not> sort_compare c a b \<le> 0 \<Longrightarrow> sort_compare c b a \<le> 0"
    and tr: "\<And>a b d. a \<in> A \<Longrightarrow> b \<in> A \<Longrightarrow> d \<in> A \<Longrightarrow> sort_compare c a b \<le> 0 \<Longrightarrow>
               sort_compare c b d \<le> 0 \<Longrightarrow> sort_compare c a d \<le> 0"
    and x: "x \<in> A"
  shows "set ys \<subseteq> A \<Longrightarrow> sorted_wrt (\<lambda>a b. sort_compare c a b \<le> 0) ys \<Longrightarrow>
         sorted_wrt (\<lambda>a b. sort_compare c a b \<le> 0) (place c x ys)"
proof (induction ys)
  case Nil
  show ?case by simp
next
  case (Cons y ys)
  have yA: "y \<in> A" and ysA: "set ys \<subseteq> A" using Cons.prems(1) by simp_all
  have below: "\<forall>z\<in>set ys. sort_compare c y z \<le> 0"
    and rest: "sorted_wrt (\<lambda>a b. sort_compare c a b \<le> 0) ys"
    using Cons.prems(2) by simp_all
  show ?case
  proof (cases "sort_compare c x y \<le> 0")
    case True
    have "\<forall>z\<in>set ys. sort_compare c x z \<le> 0"
    proof
      fix z assume z: "z \<in> set ys"
      then have "sort_compare c y z \<le> 0" using below by blast
      moreover have "z \<in> A" using z ysA by blast
      ultimately show "sort_compare c x z \<le> 0" using tr[OF x yA _ True] by blast
    qed
    then show ?thesis using True below rest by simp
  next
    case False
    have yx: "sort_compare c y x \<le> 0" by (rule tot[OF x yA False])
    have ih: "sorted_wrt (\<lambda>a b. sort_compare c a b \<le> 0) (place c x ys)"
      by (rule Cons.IH[OF ysA rest])
    have "\<forall>z\<in>set (place c x ys). sort_compare c y z \<le> 0"
      using yx below by (simp add: set_place)
    then show ?thesis using False ih by simp
  qed
qed

lemma sorted_sort_js:
  assumes tot: "\<And>a b. a \<in> A \<Longrightarrow> b \<in> A \<Longrightarrow> \<not> sort_compare c a b \<le> 0 \<Longrightarrow> sort_compare c b a \<le> 0"
    and tr: "\<And>a b d. a \<in> A \<Longrightarrow> b \<in> A \<Longrightarrow> d \<in> A \<Longrightarrow> sort_compare c a b \<le> 0 \<Longrightarrow>
               sort_compare c b d \<le> 0 \<Longrightarrow> sort_compare c a d \<le> 0"
  shows "set xs \<subseteq> A \<Longrightarrow> sorted_wrt (\<lambda>a b. sort_compare c a b \<le> 0) (sort_js c xs)"
proof (induction xs)
  case Nil
  show ?case by simp
next
  case (Cons x xs)
  have xA: "x \<in> A" and xsA: "set xs \<subseteq> A" using Cons.prems by simp_all
  have sub: "set (sort_js c xs) \<subseteq> A" using xsA by (simp add: set_sort_js)
  have "sorted_wrt (\<lambda>a b. sort_compare c a b \<le> 0) (place c x (sort_js c xs))"
    using tot tr xA sub Cons.IH[OF xsA] by (rule sorted_place)
  then show ?case by simp
qed

lemma set_filter_stage: "set (filter_stage env bms q t) \<subseteq> set bms"
  by (auto simp: filter_stage_def Let_def)

lemma compare_title:
  "(sort_compare (by_title env) a b \<le> 0) = title_le env a b"
  by (simp add: sort_compare_def by_title_def title_le_def)

lemma alpha_sorted:
  assumes "collates env bms"
  shows "sorted_wrt (title_le env) (filtered env bms q t alpha)"
proof -
  have tot: "title_le env a b \<or> title_le env b a" if "a \<in> set bms" "b \<in> set bms" for a b
    using assms that unfolding collates_def by blast
  have tr: "title_le env a d"
    if "a \<in> set bms" "b \<in> set bms" "d \<in> set bms" "title_le env a b" "title_le env b d" for a b d
    using assms that unfolding collates_def by blast
  have "sorted_wrt (\<lambda>a b. sort_compare (by_title env) a b \<le> 0)
          (sort_js (by_title env) (filter_stage env bms q t))"
  proof (rule sorted_sort_js[where A = "set bms", OF _ _ set_filter_stage])
    fix a b assume "a \<in> set bms" "b \<in> set bms" "\<not> sort_compare (by_title env) a b \<le> 0"
    then show "sort_compare (by_title env) b a \<le> 0"
      using tot[of a b] by (simp only: compare_title) blast
  next
    fix a b d
    assume "a \<in> set bms" "b \<in> set bms" "d \<in> set bms"
      "sort_compare (by_title env) a b \<le> 0" "sort_compare (by_title env) b d \<le> 0"
    then show "sort_compare (by_title env) a d \<le> 0"
      using tr[of a b d] by (simp only: compare_title)
  qed
  then have "sorted_wrt (title_le env) (sort_js (by_title env) (filter_stage env bms q t))"
    by (simp only: compare_title)
  then show ?thesis by (simp add: filtered_def)
qed

lemma compare_created:
  assumes "getTime env (created_at a) = Some s" and "getTime env (created_at b) = Some u"
  shows "(sort_compare (by_created_at env) a b \<le> 0) = (s \<le> u)"
  using assms by (simp add: sort_compare_def by_created_at_def)

lemma created_le_Some:
  assumes "getTime env (created_at a) = Some s" and "getTime env (created_at b) = Some u"
  shows "created_le env a b = (s \<le> u)"
  using assms by (simp add: created_le_def)

lemma oldest_sorted:
  assumes "\<forall>b\<in>set bms. getTime env (created_at b) \<noteq> None"
  shows "sorted_wrt (created_le env) (filtered env bms q t oldest)"
proof -
  let ?le = "\<lambda>a b. sort_compare (by_created_at env) a b \<le> 0"
  have tm: "\<exists>s. getTime env (created_at a) = Some s" if "a \<in> set bms" for a
    using that assms by auto
  have le: "?le a b = created_le env a b" if ab: "a \<in> set bms" "b \<in> set bms" for a b
  proof -
    obtain s u where g: "getTime env (created_at a) = Some s" "getTime env (created_at b) = Some u"
      using tm ab by blast
    show ?thesis
      using compare_created[OF g] created_le_Some[OF g] by blast
  qed
  have s: "sorted_wrt ?le (sort_js (by_created_at env) (filter_stage env bms q t))"
  proof (rule sorted_sort_js[where A = "set bms", OF _ _ set_filter_stage])
    fix a b assume ab: "a \<in> set bms" "b \<in> set bms" and n: "\<not> ?le a b"
    obtain s u where g: "getTime env (created_at a) = Some s" "getTime env (created_at b) = Some u"
      using tm ab by blast
    have "\<not> s \<le> u" using n compare_created[OF g] by blast
    then have "u \<le> s" by simp
    then show "?le b a" using compare_created[OF g(2) g(1)] by blast
  next
    fix a b d
    assume abd: "a \<in> set bms" "b \<in> set bms" "d \<in> set bms" and l: "?le a b" "?le b d"
    obtain s where ga: "getTime env (created_at a) = Some s" using tm abd(1) by blast
    obtain u where gb: "getTime env (created_at b) = Some u" using tm abd(2) by blast
    obtain v where gd: "getTime env (created_at d) = Some v" using tm abd(3) by blast
    have "s \<le> u" using l(1) compare_created[OF ga gb] by blast
    moreover have "u \<le> v" using l(2) compare_created[OF gb gd] by blast
    ultimately have "s \<le> v" by simp
    then show "?le a d" using compare_created[OF ga gd] by blast
  qed
  have sub: "set (sort_js (by_created_at env) (filter_stage env bms q t)) \<subseteq> set bms"
    using set_filter_stage by (simp add: set_sort_js)
  have "sorted_wrt (created_le env) (sort_js (by_created_at env) (filter_stage env bms q t))"
  proof (rule sorted_wrt_mono_rel[OF _ s])
    fix a b
    assume "a \<in> set (sort_js (by_created_at env) (filter_stage env bms q t))"
      "b \<in> set (sort_js (by_created_at env) (filter_stage env bms q t))" "?le a b"
    then show "created_le env a b" using le sub by blast
  qed
  then show ?thesis by (simp add: filtered_def)
qed

subsection \<open>Frame lemmas of the handlers\<close>

lemma inserts_prepend:
  "bookmarks (foldl (\<lambda>s n. on_payload (INSERT n) s) st news) = rev news @ bookmarks st"
  by (induction news arbitrary: st) (simp_all add: on_payload_def)

lemma handleSubmit_bookmarks: "bookmarks (fst (handleSubmit env st)) = bookmarks st"
  by (simp add: handleSubmit_def Let_def split: option.splits)

lemma handleSubmit_resumed_bookmarks: "bookmarks (handleSubmit_resumed editing r st) = bookmarks st"
  by (simp add: handleSubmit_resumed_def Let_def toast_def resetForm_def)

lemma handleSubmit_outcome_ignores_flag:
  "snd (handleSubmit env (st\<lparr>submitting := b\<rparr>)) = snd (handleSubmit env st)"
  by (simp add: handleSubmit_def Let_def split: option.splits)

lemma submit_onClick_gated: "submitting st \<Longrightarrow> submit_onClick env st = (st, Returned)"
  by (simp add: submit_onClick_def submit_disabled_def)

lemma handleSubmit_sets_flag:
  "trim env (title_st st) \<noteq> [] \<Longrightarrow> trim env (url_st st) \<noteq> [] \<Longrightarrow>
     submitting (fst (handleSubmit env st))"
  by (simp add: handleSubmit_def Let_def split: option.splits)

lemma handleSubmit_resumed_clears_flag: "\<not> submitting (handleSubmit_resumed editing r st)"
  by (simp add: handleSubmit_resumed_def Let_def)

lemma user_effect_sets_ref:
  "user st = Some u \<Longrightarrow> id_user u \<noteq> [] \<Longrightarrow>
     truthy (userIdRef (fst (user_effect st)))
     \<and> snd (user_effect st) = Awaiting (Select_req ''created_at'' False)"
  by (simp add: user_effect_def fetchBookmarks_def)

lemma handlers_keep_ref:
  "userIdRef (fst (handleDelete x st)) = userIdRef st"
  "userIdRef (fst (handleDelete_resumed r st)) = userIdRef st"
  "userIdRef (fst (handleSubmit env st)) = userIdRef st"
  "userIdRef (handleSubmit_resumed editing r st) = userIdRef st"
  "userIdRef (fetchBookmarks_resumed r st) = userIdRef st"
  "userIdRef (on_payload p st) = userIdRef st"
  by (simp_all add: handleDelete_def handleDelete_resumed_def handleSubmit_def
      handleSubmit_resumed_def fetchBookmarks_def fetchBookmarks_resumed_def on_payload_def
      toast_def resetForm_def Let_def split: option.splits)

lemma filtered_mset: "mset (filtered env bms q t k) = mset (filter_stage env bms q t)"
  by (simp add: filtered_def Let_def mset_sort_js)

subsection \<open>The worked examples evaluated\<close>

lemma st0_valid:
  "trim ascii_builtins (title_st st0) \<noteq> []" "trim ascii_builtins (url_st st0) \<noteq> []"
  "\<not> truthy (editId st0)" "user st0 = Some \<lparr>id_user = ''u1''\<rparr>"
  by (simp_all add: st0_def ascii_builtins_def blank_def)

lemma sample_times:
  "getTime ascii_builtins (created_at bm1) = Some 1704067200000"
  "getTime ascii_builtins (created_at bm2) = Some 1704153600000"
  by (simp_all add: ascii_builtins_def bm1_def bm2_def)

lemma sample_titles:
  "title_le ascii_builtins bm1 bm1" "title_le ascii_builtins bm1 bm2"
  "\<not> title_le ascii_builtins bm2 bm1" "title_le ascii_builtins bm2 bm2"
  by (simp_all add: title_le_def ascii_builtins_def bm1_def bm2_def)

lemma bm_distinct: "bm1 \<noteq> bm2" "bm2 \<noteq> bm1"
  by (simp_all add: bm1_def bm2_def)

lemma sample_fields:
  "description bm1 = None" "description bm2 = Some ''Palette''"
  "tag bm1 = Some ''Dev''" "tag bm2 = Some ''Design''"
  by (simp_all add: bm1_def bm2_def)

lemma sample_lower: "toLowerCase ascii_builtins ''pAL'' = ''pal''"
  "toLowerCase ascii_builtins (title bm1) = ''a''" "toLowerCase ascii_builtins (title bm2) = ''b''"
  "toLowerCase ascii_builtins (url bm1) = ''https://a.example''"
  "toLowerCase ascii_builtins (url bm2) = ''https://b.example''"
  "toLowerCase ascii_builtins ''Palette'' = ''palette''"
  by (simp_all add: ascii_builtins_def lower_char_def bm1_def bm2_def)

lemma sample_matches1: "\<not> matches ascii_builtins ''pal'' bm1"
  by (simp add: matches_def sample_lower sample_fields)

lemma sample_matches2: "matches ascii_builtins ''pal'' bm2"
  by (simp add: matches_def sample_lower sample_fields)

lemma sample_filter_stage: "filter_stage ascii_builtins [bm2, bm1] [] ''All'' = [bm2, bm1]"
  by (simp add: filter_stage_def)

lemma sample_view: "filtered ascii_builtins [bm2, bm1] ''pAL'' ''All'' newest = [bm2]"
  by (simp add: filtered_def filter_stage_def sample_lower(1) sample_matches1 sample_matches2)

lemma sample_view_dev: "filtered ascii_builtins [bm2, bm1] [] ''Dev'' newest = [bm1]"
  by (simp add: filtered_def filter_stage_def sample_fields)

lemma sample_collates: "collates ascii_builtins [bm2, bm1]"
  using sample_titles by (simp add: collates_def)

section \<open>The claims\<close>

text \<open>
  Claim C1. \<open>handleDelete\<close> has removed every record with the given identifier from the
  mirror when it suspends on the delete call, so the removal precedes the completion of that
  call. If the call then reports an error, the continuation calls \<open>fetchBookmarks\<close>, which
  (the ref holding the user's identifier) issues the full select and does not touch the
  mirror itself; when that select succeeds, the mirror is what it returned. If the delete
  call succeeds, the continuation does nothing.
\<close>

theorem C1_optimistic_delete:
  "bookmarks (fst (handleDelete x st)) = filter (\<lambda>b. id_bm b \<noteq> x) (bookmarks st)
   \<and> (\<forall>b \<in> set (bookmarks (fst (handleDelete x st))). id_bm b \<noteq> x)
   \<and> snd (handleDelete x st) = Awaiting (Delete_req x)
   \<and> (error r \<noteq> None \<and> truthy (userIdRef st1) \<longrightarrow>
        snd (handleDelete_resumed r st1) = Awaiting (Select_req ''created_at'' False)
        \<and> bookmarks (fst (handleDelete_resumed r st1)) = bookmarks st1
        \<and> (\<forall>r'. error r' = None \<longrightarrow>
              bookmarks (fetchBookmarks_resumed r' (fst (handleDelete_resumed r st1)))
                = (case data r' of None \<Rightarrow> [] | Some d \<Rightarrow> d)))
   \<and> (error r = None \<longrightarrow> handleDelete_resumed r st1 = (st1, Returned))"
  by (simp add: handleDelete_def handleDelete_resumed_def toast_def fetchBookmarks_def
      fetchBookmarks_resumed_def)

theorem C1_optimistic_delete_witness:
  "bookmarks (fst (handleDelete ''2'' st0)) = [bm1]
   \<and> truthy (userIdRef (fst (handleDelete ''2'' st0)))
   \<and> snd (handleDelete_resumed \<lparr>data = None, error = Some ''offline''\<rparr> (fst (handleDelete ''2'' st0)))
       = Awaiting (Select_req ''created_at'' False)
   \<and> bookmarks (fetchBookmarks_resumed \<lparr>data = Some [bm2, bm1], error = None\<rparr>
        (fst (handleDelete_resumed \<lparr>data = None, error = Some ''offline''\<rparr> (fst (handleDelete ''2'' st0)))))
       = [bm2, bm1]"
proof -
  let ?st1 = "fst (handleDelete ''2'' st0)"
  let ?r = "\<lparr>data = None, error = Some ''offline''\<rparr>"
  have t: "truthy (userIdRef ?st1)" by (simp add: handleDelete_def toast_def st0_def)
  have e: "error ?r \<noteq> None" by simp
  have f: "filter (\<lambda>b. id_bm b \<noteq> ''2'') (bookmarks st0) = [bm1]"
    by (simp add: st0_def bm1_def bm2_def)
  have ok: "error \<lparr>data = Some [bm2, bm1], error = None\<rparr> = None" by simp
  from C1_optimistic_delete[of "''2''" st0 ?r ?st1] e t
  have a: "bookmarks ?st1 = filter (\<lambda>b. id_bm b \<noteq> ''2'') (bookmarks st0)"
    and b: "snd (handleDelete_resumed ?r ?st1) = Awaiting (Select_req ''created_at'' False)"
    and c: "\<forall>r'. error r' = None \<longrightarrow>
              bookmarks (fetchBookmarks_resumed r' (fst (handleDelete_resumed ?r ?st1)))
                = (case data r' of None \<Rightarrow> [] | Some d \<Rightarrow> d)"
    by blast+
  from c ok have "bookmarks (fetchBookmarks_resumed \<lparr>data = Some [bm2, bm1], error = None\<rparr>
        (fst (handleDelete_resumed ?r ?st1))) = (case data \<lparr>data = Some [bm2, bm1], error = None\<rparr> of None \<Rightarrow> [] | Some d \<Rightarrow> d)"
    by blast
  then have d: "bookmarks (fetchBookmarks_resumed \<lparr>data = Some [bm2, bm1], error = None\<rparr>
        (fst (handleDelete_resumed ?r ?st1))) = [bm2, bm1]" by simp
  from a f t b d show ?thesis by simp
qed

text \<open>
  Claim C2 as stated fails: the view is sorted after filtering, so under the sort key
  \<open>oldest\<close> the mirror 2, 1 (newest first) is shown as 1, 2, which is not the order of
  the mirror.
\<close>

theorem C2_order_counterexample:
  "filtered ascii_builtins [bm2, bm1] [] ''All'' oldest
     \<noteq> filter (retained ascii_builtins [] ''All'') [bm2, bm1]"
proof -
  have o: "filtered ascii_builtins [bm2, bm1] [] ''All'' oldest = [bm1, bm2]"
    by (simp add: filtered_def sample_filter_stage compare_created[OF sample_times(2) sample_times(1)])
  have f: "filter (retained ascii_builtins [] ''All'') [bm2, bm1] = [bm2, bm1]"
    by (simp add: retained_def)
  show ?thesis unfolding o f using bm_distinct by simp
qed

text \<open>
  Claim C2, amended. Under the sort key \<open>newest\<close> the view is exactly the records of the
  mirror that the specification retains (query empty or contained case-insensitively in
  title, URL or note; tag \<open>All\<close> or equal to the record's), in the mirror's order. Under
  every sort key the view holds exactly those records, each as often as the mirror does.
\<close>

theorem C2_view_retains:
  "filtered env bms q t newest = filter (retained env q t) bms
   \<and> mset (filtered env bms q t k) = mset (filter (retained env q t) bms)"
  by (simp add: filtered_mset filter_stage_retained) (simp add: filtered_def filter_stage_retained)

theorem C2_view_retains_witness:
  "filtered ascii_builtins [bm2, bm1] ''pAL'' ''All'' newest = [bm2]
   \<and> filter (retained ascii_builtins ''pAL'' ''All'') [bm2, bm1] = [bm2]
   \<and> filter (retained ascii_builtins [] ''Dev'') [bm2, bm1] = [bm1]"
proof -
  have e1: "filtered ascii_builtins [bm2, bm1] ''pAL'' ''All'' newest
              = filter (retained ascii_builtins ''pAL'' ''All'') [bm2, bm1]"
    using C2_view_retains[of ascii_builtins "[bm2, bm1]" "''pAL''" "''All''" newest]
    by (rule conjunct1)
  have e2: "filtered ascii_builtins [bm2, bm1] [] ''Dev'' newest
              = filter (retained ascii_builtins [] ''Dev'') [bm2, bm1]"
    using C2_view_retains[of ascii_builtins "[bm2, bm1]" "[]" "''Dev''" newest]
    by (rule conjunct1)
  have 1: "filter (retained ascii_builtins ''pAL'' ''All'') [bm2, bm1] = [bm2]"
    by (rule trans[OF e1[symmetric] sample_view])
  have 2: "filter (retained ascii_builtins [] ''Dev'') [bm2, bm1] = [bm1]"
    by (rule trans[OF e2[symmetric] sample_view_dev])
  from sample_view 1 2 show ?thesis by (intro conjI)
qed

text \<open>
  Claim C3. Under \<open>newest\<close> the view is the filtered mirror, no sort applied. Under every
  key it has the records of the filtered mirror. Under \<open>alpha\<close> it is non-decreasing by
  the locale comparison of titles, provided the comparison orders the titles of the mirror
  consistently; under \<open>oldest\<close> it is non-decreasing by creation time, provided every
  creation timestamp of the mirror parses as a date.
\<close>

theorem C3_sort_orders:
  "filtered env bms q t newest = filter_stage env bms q t
   \<and> mset (filtered env bms q t k) = mset (filter_stage env bms q t)
   \<and> (collates env bms \<longrightarrow> sorted_wrt (title_le env) (filtered env bms q t alpha))
   \<and> ((\<forall>b\<in>set bms. getTime env (created_at b) \<noteq> None) \<longrightarrow>
         sorted_wrt (created_le env) (filtered env bms q t oldest))"
  using alpha_sorted[of env bms q t] oldest_sorted[of bms env q t]
  by (simp add: filtered_mset) (simp add: filtered_def)

theorem C3_sort_orders_witness:
  "collates ascii_builtins [bm2, bm1]
   \<and> getTime ascii_builtins (created_at bm2) = Some 1704153600000
   \<and> getTime ascii_builtins (created_at bm1) = Some 1704067200000
   \<and> filtered ascii_builtins [bm2, bm1] [] ''All'' newest = [bm2, bm1]
   \<and> filtered ascii_builtins [bm2, bm1] [] ''All'' alpha = [bm1, bm2]
   \<and> filtered ascii_builtins [bm2, bm1] [] ''All'' oldest = [bm1, bm2]
   \<and> sorted_wrt (title_le ascii_builtins) (filtered ascii_builtins [bm2, bm1] [] ''All'' alpha)
   \<and> sorted_wrt (created_le ascii_builtins) (filtered ascii_builtins [bm2, bm1] [] ''All'' oldest)"
proof -
  have v: "\<forall>b\<in>set [bm2, bm1]. getTime ascii_builtins (created_at b) \<noteq> None"
    by (simp add: sample_times)
  have a: "filtered ascii_builtins [bm2, bm1] [] ''All'' alpha = [bm1, bm2]"
    using sample_titles
    by (simp add: filtered_def sample_filter_stage compare_title)
  have o: "filtered ascii_builtins [bm2, bm1] [] ''All'' oldest = [bm1, bm2]"
    by (simp add: filtered_def sample_filter_stage compare_created[OF sample_times(2) sample_times(1)])
  from C3_sort_orders[of ascii_builtins "[bm2, bm1]" "[]" "''All''" newest] sample_collates v
  have "filtered ascii_builtins [bm2, bm1] [] ''All'' newest
          = filter_stage ascii_builtins [bm2, bm1] [] ''All''"
    and "sorted_wrt (title_le ascii_builtins) (filtered ascii_builtins [bm2, bm1] [] ''All'' alpha)"
    and "sorted_wrt (created_le ascii_builtins) (filtered ascii_builtins [bm2, bm1] [] ''All'' oldest)"
    by blast+
  with sample_collates sample_times a o show ?thesis by (simp add: sample_filter_stage)
qed

text \<open>
  Claim C4. An insert event puts the new record at the front of the mirror and leaves the
  rest as it was, whatever the creation time of the new record; a run of insert events
  therefore leaves the records in reverse order of arrival in front of the old mirror.
\<close>

theorem C4_insert_prepends:
  "bookmarks (on_payload (INSERT new) st) = new # bookmarks st
   \<and> bookmarks (foldl (\<lambda>s n. on_payload (INSERT n) s) st news) = rev news @ bookmarks st"
  by (simp add: inserts_prepend) (simp add: on_payload_def)

text \<open>
  Scenario 5 of the specification: the mirror holds the records 2 and 1, the insert event
  for record 3 arrives (its creation time is that of record 1), and the mirror is 3, 2, 1.
\<close>

lemma C4_scenario:
  "map id_bm (bookmarks (on_payload (INSERT bm3) st0)) = [''3'', ''2'', ''1'']"
  by (simp add: on_payload_def st0_def bm1_def bm2_def bm3_def)

text \<open>
  Claim C5. An update event keeps the length of the mirror, and at every position the
  record is the new one where the identifier equals that of the event, and the old one
  where it differs.
\<close>

theorem C5_update_in_place:
  "length (bookmarks (on_payload (UPDATE new) st)) = length (bookmarks st)
   \<and> (\<forall>k < length (bookmarks st).
         bookmarks (on_payload (UPDATE new) st) ! k
           = (if id_bm (bookmarks st ! k) = id_bm new then new else bookmarks st ! k))"
  by (simp add: on_payload_def)

theorem C5_update_in_place_witness:
  "(1::nat) < length (bookmarks st0)
   \<and> bookmarks (on_payload (UPDATE (bm1\<lparr>title := ''Z''\<rparr>)) st0) ! 1 = bm1\<lparr>title := ''Z''\<rparr>
   \<and> length (bookmarks (on_payload (UPDATE (bm1\<lparr>title := ''Z''\<rparr>)) st0)) = length (bookmarks st0)"
proof -
  let ?new = "bm1\<lparr>title := ''Z''\<rparr>"
  have h: "(1::nat) < length (bookmarks st0)" by (simp add: st0_def)
  have e: "id_bm (bookmarks st0 ! 1) = id_bm ?new" by (simp add: st0_def bm1_def)
  have c: "length (bookmarks (on_payload (UPDATE ?new) st0)) = length (bookmarks st0)
     \<and> (\<forall>k < length (bookmarks st0).
         bookmarks (on_payload (UPDATE ?new) st0) ! k
           = (if id_bm (bookmarks st0 ! k) = id_bm ?new then ?new else bookmarks st0 ! k))"
    by (rule C5_update_in_place)
  then have "bookmarks (on_payload (UPDATE ?new) st0) ! 1
      = (if id_bm (bookmarks st0 ! 1) = id_bm ?new then ?new else bookmarks st0 ! 1)"
    using h by blast
  then have "bookmarks (on_payload (UPDATE ?new) st0) ! 1 = ?new"
    by (simp only: e refl if_True)
  with h c show ?thesis by blast
qed

text \<open>
  Claim C6. A create submission that passes validation and succeeds issues the insert call
  and leaves the mirror as it was, both before the call and in the continuation after it;
  the record enters the mirror when its insert event arrives.
\<close>

theorem C6_create_leaves_mirror:
  assumes "trim env (title_st st) \<noteq> []" and "trim env (url_st st) \<noteq> []"
    and "\<not> truthy (editId st)" and "user st = Some u" and "error r = None"
  shows "snd (handleSubmit env st)
           = Awaiting (Insert_req (title_st st) (url_st st) (description_st st) (tag_st st) (id_user u))
         \<and> bookmarks (fst (handleSubmit env st)) = bookmarks st
         \<and> bookmarks (handleSubmit_resumed False r (fst (handleSubmit env st))) = bookmarks st
         \<and> bookmarks (on_payload (INSERT new) (handleSubmit_resumed False r (fst (handleSubmit env st))))
             = new # bookmarks st"
proof -
  have "snd (handleSubmit env st)
          = Awaiting (Insert_req (title_st st) (url_st st) (description_st st) (tag_st st) (id_user u))"
    using assms by (simp add: handleSubmit_def Let_def)
  moreover have "bookmarks (on_payload (INSERT new) (handleSubmit_resumed False r (fst (handleSubmit env st))))
             = new # bookmarks st"
    by (simp add: on_payload_def handleSubmit_resumed_bookmarks handleSubmit_bookmarks)
  ultimately show ?thesis
    by (simp add: handleSubmit_resumed_bookmarks handleSubmit_bookmarks)
qed

theorem C6_create_leaves_mirror_witness:
  "snd (handleSubmit ascii_builtins st0) = Awaiting (Insert_req '' A '' ''https://a.example '' [] [] ''u1'')
   \<and> bookmarks (handleSubmit_resumed False \<lparr>data = None, error = None\<rparr> (fst (handleSubmit ascii_builtins st0)))
       = [bm2, bm1]
   \<and> bookmarks (on_payload (INSERT bm3)
        (handleSubmit_resumed False \<lparr>data = None, error = None\<rparr> (fst (handleSubmit ascii_builtins st0))))
       = [bm3, bm2, bm1]"
proof -
  have e: "error \<lparr>data = None, error = None\<rparr> = None" by simp
  from C6_create_leaves_mirror[OF st0_valid e, of bm3]
  show ?thesis by (simp add: st0_def)
qed

text \<open>
  Claim C7. When the title or the URL is empty after trimming, \<open>handleSubmit\<close> returns
  with the state untouched and no remote call, from the Enter key as from the button, and
  the submit button is disabled.
\<close>

theorem C7_empty_fields_block:
  assumes "trim env (title_st st) = [] \<or> trim env (url_st st) = []"
  shows "handleSubmit env st = (st, Returned)
         \<and> url_onKeyDown env key st = (st, Returned)
         \<and> submit_onClick env st = (st, Returned)
         \<and> submit_disabled env st"
  using assms by (auto simp: handleSubmit_def url_onKeyDown_def submit_onClick_def submit_disabled_def)

theorem C7_empty_fields_block_witness:
  "trim ascii_builtins (title_st (st0\<lparr>title_st := ''  ''\<rparr>)) = []
   \<and> handleSubmit ascii_builtins (st0\<lparr>title_st := ''  ''\<rparr>) = (st0\<lparr>title_st := ''  ''\<rparr>, Returned)
   \<and> submit_disabled ascii_builtins (st0\<lparr>title_st := ''  ''\<rparr>)"
proof -
  have h: "trim ascii_builtins (title_st (st0\<lparr>title_st := ''  ''\<rparr>)) = []"
    by (simp add: ascii_builtins_def blank_def)
  then have "trim ascii_builtins (title_st (st0\<lparr>title_st := ''  ''\<rparr>)) = []
             \<or> trim ascii_builtins (url_st (st0\<lparr>title_st := ''  ''\<rparr>)) = []" ..
  from C7_empty_fields_block[OF this] h show ?thesis by blast
qed

text \<open>
  Claim C8, on the code. With the form filled in, a click on the submit button starts an
  insert and sets \<open>submitting\<close>; a second click is refused by the disabled button; but the
  Enter key in the URL input calls \<open>handleSubmit\<close>, which does not read the flag, and a
  second insert starts while the first is in flight.
\<close>

theorem C8_enter_key_while_submitting:
  "snd (submit_onClick ascii_builtins st0)
     = Awaiting (Insert_req '' A '' ''https://a.example '' [] [] ''u1'')
   \<and> submitting (fst (submit_onClick ascii_builtins st0))
   \<and> submit_onClick ascii_builtins (fst (submit_onClick ascii_builtins st0))
       = (fst (submit_onClick ascii_builtins st0), Returned)
   \<and> snd (url_onKeyDown ascii_builtins ''Enter'' (fst (submit_onClick ascii_builtins st0)))
       = Awaiting (Insert_req '' A '' ''https://a.example '' [] [] ''u1'')"
  by (simp add: submit_onClick_def submit_disabled_def url_onKeyDown_def handleSubmit_def Let_def
      st0_def ascii_builtins_def blank_def)

text \<open>
  Claim C9. With a non-empty identifier in the ref, \<open>fetchBookmarks\<close> issues one select
  ordered by \<open>created_at\<close> descending and changes nothing before it resolves. On success
  the mirror becomes the returned records as returned (the empty list for \<open>null\<close>), so
  records delivered in descending creation order are mirrored in that order; on an error
  the whole state, the mirror included, stays as it was.
\<close>

theorem C9_fetch_replaces_or_keeps:
  assumes "truthy (userIdRef st)"
  shows "fetchBookmarks st = (st, Awaiting (Select_req ''created_at'' False))
     \<and> (error r = None \<longrightarrow>
          fetchBookmarks_resumed r st' = st'\<lparr>bookmarks := (case data r of None \<Rightarrow> [] | Some d \<Rightarrow> d)\<rparr>)
     \<and> (\<forall>d. error r = None \<and> data r = Some d \<and> sorted_wrt (\<lambda>a b. created_le env b a) d \<longrightarrow>
          bookmarks (fetchBookmarks_resumed r st') = d
          \<and> sorted_wrt (\<lambda>a b. created_le env b a) (bookmarks (fetchBookmarks_resumed r st')))
     \<and> (error r \<noteq> None \<longrightarrow> fetchBookmarks_resumed r st' = st')"
  using assms by (simp add: fetchBookmarks_def fetchBookmarks_resumed_def)

theorem C9_fetch_replaces_or_keeps_witness:
  "truthy (userIdRef st0)
   \<and> sorted_wrt (\<lambda>a b. created_le ascii_builtins b a) [bm2, bm1]
   \<and> fetchBookmarks st0 = (st0, Awaiting (Select_req ''created_at'' False))
   \<and> bookmarks (fetchBookmarks_resumed \<lparr>data = Some [bm2, bm1], error = None\<rparr> (st0\<lparr>bookmarks := []\<rparr>))
       = [bm2, bm1]
   \<and> fetchBookmarks_resumed \<lparr>data = None, error = Some ''offline''\<rparr> st0 = st0"
proof -
  have t: "truthy (userIdRef st0)" by (simp add: st0_def)
  have s: "sorted_wrt (\<lambda>a b. created_le ascii_builtins b a) [bm2, bm1]"
    by (simp add: created_le_def sample_times)
  have e: "error \<lparr>data = Some [bm2, bm1], error = None\<rparr> = None
           \<and> data \<lparr>data = Some [bm2, bm1], error = None\<rparr> = Some [bm2, bm1]
           \<and> sorted_wrt (\<lambda>a b. created_le ascii_builtins b a) [bm2, bm1]"
    using s by simp
  have n: "error \<lparr>data = None, error = Some ''offline''\<rparr> \<noteq> None" by simp
  from C9_fetch_replaces_or_keeps[OF t, of "\<lparr>data = Some [bm2, bm1], error = None\<rparr>"
      "st0\<lparr>bookmarks := []\<rparr>" ascii_builtins] e
  have 1: "fetchBookmarks st0 = (st0, Awaiting (Select_req ''created_at'' False))"
    and 2: "bookmarks (fetchBookmarks_resumed \<lparr>data = Some [bm2, bm1], error = None\<rparr>
              (st0\<lparr>bookmarks := []\<rparr>)) = [bm2, bm1]"
    by blast+
  from C9_fetch_replaces_or_keeps[OF t, of "\<lparr>data = None, error = Some ''offline''\<rparr>" st0] n
  have 3: "fetchBookmarks_resumed \<lparr>data = None, error = Some ''offline''\<rparr> st0 = st0"
    by blast
  from t s 1 2 3 show ?thesis by blast
qed

text \<open>
  Claim C10. A submission that passes validation sends the title and the URL as the form
  holds them: the trimmed texts are used for the emptiness test only.
\<close>

theorem C10_payload_untrimmed:
  assumes "trim env (title_st st) \<noteq> []" and "trim env (url_st st) \<noteq> []"
  shows "(truthy (editId st) \<longrightarrow>
            (\<exists>i. editId st = Some i \<and> snd (handleSubmit env st)
               = Awaiting (Update_req (title_st st) (url_st st) (description_st st) (tag_st st) i)))
         \<and> (\<not> truthy (editId st) \<longrightarrow> (\<forall>u. user st = Some u \<longrightarrow>
              snd (handleSubmit env st)
               = Awaiting (Insert_req (title_st st) (url_st st) (description_st st) (tag_st st) (id_user u))))"
  using assms by (cases "editId st") (auto simp: handleSubmit_def Let_def)

theorem C10_payload_untrimmed_witness:
  "trim ascii_builtins '' A '' = ''A''
   \<and> snd (handleSubmit ascii_builtins st0) = Awaiting (Insert_req '' A '' ''https://a.example '' [] [] ''u1'')
   \<and> snd (handleSubmit ascii_builtins (st0\<lparr>editId := Some ''1''\<rparr>))
       = Awaiting (Update_req '' A '' ''https://a.example '' [] [] ''1'')"
proof -
  have t: "trim ascii_builtins '' A '' = ''A''" by (simp add: ascii_builtins_def blank_def)
  have v: "trim ascii_builtins (title_st (st0\<lparr>editId := Some ''1''\<rparr>)) \<noteq> []"
    "trim ascii_builtins (url_st (st0\<lparr>editId := Some ''1''\<rparr>)) \<noteq> []"
    using st0_valid(1,2) by simp_all
  from C10_payload_untrimmed[OF st0_valid(1,2)] C10_payload_untrimmed[OF v] t
  show ?thesis by (simp add: st0_def)
qed

end
